theory Spec2Isabelle
  imports Complex_Main "HOL-Library.Word"
begin

unbundle bit_operations_syntax

section \<open>The node buffer and its typed-array views\<close>

text \<open>
  A root of the hierarchy is an \<^verbatim>\<open>ArrayBuffer\<close>: a sequence of bytes. The encoder
  looks at it through three typed arrays over the same bytes (\<^verbatim>\<open>Uint16Array\<close>,
  \<^verbatim>\<open>Uint32Array\<close>, \<^verbatim>\<open>Float32Array\<close>), so the three views alias each other.
  A view is modelled by its indexing function; reading past the end of a typed
  array yields \<^verbatim>\<open>undefined\<close>, which is \<open>None\<close> here. Typed arrays use the byte order
  of the platform; the model fixes little-endian. A 32-bit float is represented by
  its IEEE-754 bit pattern; the float view of the buffer yields the pattern stored there.
\<close>

type_synonym ArrayBuffer = "8 word list"

type_synonym float32 = "32 word"

definition Uint16Array :: "ArrayBuffer \<Rightarrow> nat \<Rightarrow> 16 word option" where
  "Uint16Array buf j =
     (if 2 * j + 1 < length buf
      then Some (word_cat (buf ! (2 * j + 1)) (buf ! (2 * j)))
      else None)"

definition Uint32Array :: "ArrayBuffer \<Rightarrow> nat \<Rightarrow> 32 word option" where
  "Uint32Array buf j =
     (if 4 * j + 3 < length buf
      then Some (word_rcat [buf ! (4 * j + 3), buf ! (4 * j + 2), buf ! (4 * j + 1), buf ! (4 * j)])
      else None)"

definition Float32Array :: "ArrayBuffer \<Rightarrow> nat \<Rightarrow> float32 option" where
  "Float32Array buf j = Uint32Array buf j"

text \<open>
  Storing a JavaScript value into a typed array converts it: \<^verbatim>\<open>undefined\<close> becomes
  NaN in a \<^verbatim>\<open>Float32Array\<close> and 0 in a \<^verbatim>\<open>Uint32Array\<close>; the operand of \<^verbatim>\<open>|\<close> is
  converted to a 32-bit integer, \<^verbatim>\<open>undefined\<close> giving 0.

  An element of a \<^verbatim>\<open>Float32Array\<close> is read as a JavaScript number (a double) and
  converted back to a 32-bit float when it is stored. The round trip keeps every
  float that is not a NaN, bit for bit. A NaN (exponent bits all set, fraction not
  zero) stays a NaN but does not keep its pattern: the conversion makes a signalling
  NaN quiet by setting the top bit of the fraction, so \<open>0x7F800001\<close> is stored as
  \<open>0x7FC00001\<close>. Two patterns are the same float when they are equal or both NaN.
\<close>

definition NaN32 :: float32 where
  "NaN32 = 0x7FC00000"

definition isNaN32 :: "float32 \<Rightarrow> bool" where
  "isNaN32 x = (x AND 0x7F800000 = 0x7F800000 \<and> x AND 0x007FFFFF \<noteq> 0)"

definition sameFloat32 :: "float32 \<Rightarrow> float32 \<Rightarrow> bool" where
  "sameFloat32 x y = (x = y \<or> (isNaN32 x \<and> isNaN32 y))"

definition toFloat32 :: "float32 option \<Rightarrow> float32" where
  "toFloat32 v =
     (case v of
        None \<Rightarrow> NaN32
      | Some x \<Rightarrow> if isNaN32 x then x OR 0x00400000 else x)"

definition toUint32 :: "32 word option \<Rightarrow> 32 word" where
  "toUint32 v = (case v of None \<Rightarrow> 0 | Some w \<Rightarrow> w)"

definition toInt32 :: "16 word option \<Rightarrow> 32 word" where
  "toInt32 v = (case v of None \<Rightarrow> 0 | Some c \<Rightarrow> ucast c)"

section \<open>Node accessors\<close>

definition BYTES_PER_NODE :: nat where
  "BYTES_PER_NODE = 6 * 4 + 4 + 4"

definition isLeaf :: "nat \<Rightarrow> (nat \<Rightarrow> 16 word option) \<Rightarrow> bool" where
  "isLeaf n16 uint16Array = (uint16Array (n16 + 15) = Some 0xFFFF)"

definition getAtOffset :: "nat \<Rightarrow> (nat \<Rightarrow> 32 word option) \<Rightarrow> 32 word option" where
  "getAtOffset n32 uint32Array = uint32Array (n32 + 6)"

definition getCount :: "nat \<Rightarrow> (nat \<Rightarrow> 16 word option) \<Rightarrow> 16 word option" where
  "getCount n16 uint16Array = uint16Array (n16 + 14)"

definition getLeftNode :: "nat \<Rightarrow> nat" where
  "getLeftNode n32 = n32 + 8"

definition getRightNode :: "nat \<Rightarrow> (nat \<Rightarrow> 32 word option) \<Rightarrow> 32 word option" where
  "getRightNode n32 uint32Array = uint32Array (n32 + 6)"

definition getSplitAxis :: "nat \<Rightarrow> (nat \<Rightarrow> 32 word option) \<Rightarrow> 32 word option" where
  "getSplitAxis n32 uint32Array = uint32Array (n32 + 7)"

definition getBoundingDataIndex :: "nat \<Rightarrow> nat" where
  "getBoundingDataIndex n32 = n32"

section \<open>The encoder \<^verbatim>\<open>bvhToTextures\<close>\<close>

record MeshBVHInternal =
  roots :: "ArrayBuffer list"

record textures =
  boundsArray :: "float32 list"
  contentsArray :: "32 word list"
  boundsDimension :: nat
  contentsDimension :: nat

datatype error =
    MultiRootNotSupported  \<comment> \<open>\<^verbatim>\<open>Error("MeshBVHUniformStruct: Multi-root BVHs not supported.")\<close>\<close>
  | RangeError             \<comment> \<open>a typed array over a buffer whose length is not a multiple of the element size\<close>

text \<open>
  The inner loop \<^verbatim>\<open>for (let b = 0; b < 3; b++)\<close>. A store into a typed array at an
  index past its end is ignored, which is what \<open>xs[k := v]\<close> does.
\<close>

function copyBounds ::
  "(nat \<Rightarrow> float32 option) \<Rightarrow> nat \<Rightarrow> nat \<Rightarrow> nat \<Rightarrow> float32 list \<Rightarrow> float32 list" where
  "copyBounds float32Array i boundsIndex b bounds =
     (if b < 3
      then copyBounds float32Array i boundsIndex (b + 1)
             (bounds[8 * i + 0 + b := toFloat32 (float32Array (boundsIndex + 0 + b)),
                     8 * i + 4 + b := toFloat32 (float32Array (boundsIndex + 3 + b))])
      else bounds)"
  by pat_completeness auto
termination
  by (relation "measure (\<lambda>(f, i, bi, b, bounds). 3 - b)") auto

text \<open>
  The right child's index: \<^verbatim>\<open>(4 * getRightNode(..)) / BYTES_PER_NODE\<close> is computed on
  JavaScript numbers without overflow, and the store into the \<^verbatim>\<open>Uint32Array\<close> drops
  the fractional part of the quotient. An \<^verbatim>\<open>undefined\<close> operand gives NaN, stored as 0.
\<close>

definition rightIndexOf :: "32 word option \<Rightarrow> 32 word" where
  "rightIndexOf r =
     (case r of None \<Rightarrow> 0 | Some w \<Rightarrow> word_of_nat ((4 * unat w) div BYTES_PER_NODE))"

text \<open>The body of the outer loop for node \<open>i\<close>.\<close>

definition encodeNode ::
  "(nat \<Rightarrow> 16 word option) \<Rightarrow> (nat \<Rightarrow> 32 word option) \<Rightarrow> (nat \<Rightarrow> float32 option) \<Rightarrow>
     nat \<Rightarrow> float32 list \<times> 32 word list \<Rightarrow> float32 list \<times> 32 word list" where
  "encodeNode uint16Array uint32Array float32Array i arrays =
     (let nodeIndex32 = (i * BYTES_PER_NODE) div 4;
          nodeIndex16 = nodeIndex32 * 2;
          boundsIndex = getBoundingDataIndex nodeIndex32;
          bounds = copyBounds float32Array i boundsIndex 0 (fst arrays);
          contents = snd arrays
      in if isLeaf nodeIndex16 uint16Array
         then (let count = getCount nodeIndex16 uint16Array;
                   offset = getAtOffset nodeIndex32 uint32Array;
                   mergedLeafCount = 0xFFFF0000 OR toInt32 count
               in (bounds, contents[i * 2 + 0 := mergedLeafCount, i * 2 + 1 := toUint32 offset]))
         else (let rightIndex = rightIndexOf (getRightNode nodeIndex32 uint32Array);
                   splitAxis = getSplitAxis nodeIndex32 uint32Array
               in (bounds, contents[i * 2 + 0 := toUint32 splitAxis, i * 2 + 1 := rightIndex])))"

text \<open>
  The outer loop \<^verbatim>\<open>for (let i = 0; i < nodeCount; i++)\<close>; \<open>nodeCount\<close> is the quotient
  \<^verbatim>\<open>root.byteLength / BYTES_PER_NODE\<close>, a number that need not be an integer.
\<close>

function encodeLoop ::
  "(nat \<Rightarrow> 16 word option) \<Rightarrow> (nat \<Rightarrow> 32 word option) \<Rightarrow> (nat \<Rightarrow> float32 option) \<Rightarrow>
     real \<Rightarrow> nat \<Rightarrow> float32 list \<times> 32 word list \<Rightarrow> float32 list \<times> 32 word list" where
  "encodeLoop uint16Array uint32Array float32Array nodeCount i arrays =
     (if real i < nodeCount
      then encodeLoop uint16Array uint32Array float32Array nodeCount (i + 1)
             (encodeNode uint16Array uint32Array float32Array i arrays)
      else arrays)"
  by pat_completeness auto
termination
proof (relation "measure (\<lambda>(u16, u32, f32, nodeCount, i, arrays). nat \<lceil>nodeCount\<rceil> - i)")
  show "wf (measure (\<lambda>(u16, u32, f32, nodeCount, i, arrays). nat \<lceil>nodeCount :: real\<rceil> - i))"
    by simp
next
  fix u16 :: "nat \<Rightarrow> 16 word option" and u32 :: "nat \<Rightarrow> 32 word option"
    and f32 :: "nat \<Rightarrow> float32 option" and nodeCount :: real and i :: nat
    and arrays :: "float32 list \<times> 32 word list"
  assume "real i < nodeCount"
  then have "int i < \<lceil>nodeCount\<rceil>"
    by (simp add: less_ceiling_iff)
  then have "i < nat \<lceil>nodeCount\<rceil>"
    by linarith
  then show "((u16, u32, f32, nodeCount, i + 1, encodeNode u16 u32 f32 i arrays),
              (u16, u32, f32, nodeCount, i, arrays))
             \<in> measure (\<lambda>(u16, u32, f32, nodeCount, i, arrays). nat \<lceil>nodeCount\<rceil> - i)"
    by simp
qed

text \<open>
  The encoder. It throws for a hierarchy that does not have exactly one root. The
  constructors of the 16-bit and of the 32-bit views throw a \<^verbatim>\<open>RangeError\<close> when the
  byte length of the buffer is not a multiple of their element size.
  \<^verbatim>\<open>Math.sqrt\<close> and \<^verbatim>\<open>Math.ceil\<close> are the real square root and ceiling: for the byte
  lengths a buffer can have, the ceiling of the rounded square root of a multiple
  of 1/64 is the ceiling of the exact one.
\<close>

definition bvhToTextures :: "MeshBVHInternal \<Rightarrow> error + textures" where
  "bvhToTextures bvh =
     (if length (roots bvh) \<noteq> 1 then Inl MultiRootNotSupported
      else
        let root = roots bvh ! 0 in
        if \<not> 2 dvd length root then Inl RangeError
        else if \<not> 4 dvd length root then Inl RangeError
        else
          let uint16Array = Uint16Array root;
              uint32Array = Uint32Array root;
              float32Array = Float32Array root;
              nodeCount = real (length root) / real BYTES_PER_NODE;
              boundsDim = 2 * nat \<lceil>sqrt (nodeCount / 2)\<rceil>;
              bounds = replicate (4 * boundsDim * boundsDim) 0;
              contentsDim = nat \<lceil>sqrt nodeCount\<rceil>;
              contents = replicate (2 * contentsDim * contentsDim) 0;
              arrays = encodeLoop uint16Array uint32Array float32Array nodeCount 0 (bounds, contents)
          in Inr \<lparr>boundsArray = fst arrays, contentsArray = snd arrays,
                  boundsDimension = boundsDim, contentsDimension = contentsDim\<rparr>)"

text \<open>
  The two words that the loop body stores for node \<open>j\<close> at \<open>contentsArray[2j]\<close> and
  \<open>contentsArray[2j + 1]\<close>, read off \<open>encodeNode\<close>: the leaf branch, the internal
  branch, and the choice between them. The lemmas about the loop are stated with them.
\<close>

definition leafWords :: "(nat \<Rightarrow> 16 word option) \<Rightarrow> (nat \<Rightarrow> 32 word option) \<Rightarrow> nat \<Rightarrow> 32 word \<times> 32 word" where
  "leafWords u16 u32 j =
     (0xFFFF0000 OR toInt32 (getCount (8 * j * 2) u16), toUint32 (getAtOffset (8 * j) u32))"

definition innerWords :: "(nat \<Rightarrow> 32 word option) \<Rightarrow> nat \<Rightarrow> 32 word \<times> 32 word" where
  "innerWords u32 j =
     (toUint32 (getSplitAxis (8 * j) u32), rightIndexOf (getRightNode (8 * j) u32))"

definition nodeWords :: "(nat \<Rightarrow> 16 word option) \<Rightarrow> (nat \<Rightarrow> 32 word option) \<Rightarrow> nat \<Rightarrow> 32 word \<times> 32 word" where
  "nodeWords u16 u32 j = (if isLeaf (8 * j * 2) u16 then leafWords u16 u32 j else innerWords u32 j)"


section \<open>Dispatch size and frame loop of \<^verbatim>\<open>run\<close>\<close>







text \<open>
  The frame function \<^verbatim>\<open>render\<close> is an \<^verbatim>\<open>async\<close> function that the browser calls for
  every requested animation frame. Its state is the frame counter, the map state of the
  timing result buffer, and the trace of what it has done so far. The only thing it
  waits for is the promise of \<^verbatim>\<open>mapAsync\<close>; what becomes of that promise is decided
  outside the program and is a parameter of the model: it resolves, it rejects, or it
  has not settled (the function stays suspended at its \<^verbatim>\<open>await\<close>). A rejection is thrown
  at the \<^verbatim>\<open>await\<close>; nothing catches it, so the rest of the function body is skipped.
  \<open>render\<close> returns the new state and whether it requested another animation frame.
  The target frame count is the variable \<^verbatim>\<open>TARGET_FRAMES\<close> of the source, which is 0 and
  never assigned again; \<open>render\<close> takes it as an argument and the program is
  \<open>render TARGET_FRAMES\<close>.
\<close>

datatype mapState = Unmapped | Pending | Mapped

datatype event =
    DispatchWorkgroups | ResolveQuerySet | CopyBufferToBuffer | Draw | Submit
  | MapAsync | LogGpuTime | Unmap | RequestAnimationFrame

datatype mapOutcome = Resolves | Rejects | NeverSettles

record driver =
  frame :: nat
  resultBufferState :: mapState
  trace :: "event list"

definition emit :: "event list \<Rightarrow> driver \<Rightarrow> driver" where
  "emit es st = st\<lparr>trace := trace st @ es\<rparr>"

definition scheduleNext :: "nat \<Rightarrow> driver \<Rightarrow> driver \<times> bool" where
  "scheduleNext targetFrames st =
     (if frame st < targetFrames
      then (emit [RequestAnimationFrame] (st\<lparr>frame := frame st + 1\<rparr>), True)
      else (st, False))"

definition render :: "nat \<Rightarrow> mapOutcome \<Rightarrow> driver \<Rightarrow> driver \<times> bool" where
  "render targetFrames outcome st =
     (let st1 = emit [DispatchWorkgroups, ResolveQuerySet] st;
          st2 = (if resultBufferState st1 = Unmapped then emit [CopyBufferToBuffer] st1 else st1);
          st3 = emit [Draw, Submit] st2
      in if resultBufferState st3 = Unmapped
         then (let st4 = emit [MapAsync] (st3\<lparr>resultBufferState := Pending\<rparr>)
               in case outcome of
                    Resolves \<Rightarrow>
                      scheduleNext targetFrames
                        (emit [LogGpuTime, Unmap] (st4\<lparr>resultBufferState := Unmapped\<rparr>))
                  | Rejects \<Rightarrow> (st4\<lparr>resultBufferState := Unmapped\<rparr>, False)
                  | NeverSettles \<Rightarrow> (st4, False))
         else scheduleNext targetFrames st3)"

text \<open>
  The frame loop: the browser calls \<open>render\<close> again for every frame it requested. The
  outcome of the map request of the frame with counter \<open>k\<close> is \<open>outcomes k\<close>. A frame is
  requested only after the counter has been incremented below the target, which bounds
  the loop.
\<close>

lemma render_scheduled:
  "render targetFrames outcome st = (st', True) \<Longrightarrow>
   frame st < targetFrames \<and> frame st' = frame st + 1"
  by (auto simp: render_def scheduleNext_def emit_def Let_def split: if_splits mapOutcome.splits)

function frameLoop :: "nat \<Rightarrow> (nat \<Rightarrow> mapOutcome) \<Rightarrow> driver \<Rightarrow> driver" where
  "frameLoop targetFrames outcomes st =
     (case render targetFrames (outcomes (frame st)) st of
        (st', scheduled) \<Rightarrow> if scheduled then frameLoop targetFrames outcomes st' else st')"
  by pat_completeness auto
termination
  by (relation "measure (\<lambda>(targetFrames, outcomes, st). targetFrames - frame st)")
    (auto dest!: render_scheduled [OF sym])

text \<open>
  The configured target, the state in which \<^verbatim>\<open>run\<close> requests the first frame, and the
  run of the whole loop. A frame is counted as rendered when its commands are submitted.
\<close>

definition TARGET_FRAMES :: nat where
  "TARGET_FRAMES = 0"

definition initialDriver :: driver where
  "initialDriver = \<lparr>frame = 0, resultBufferState = Unmapped, trace = [RequestAnimationFrame]\<rparr>"

definition runFrames :: "nat \<Rightarrow> (nat \<Rightarrow> mapOutcome) \<Rightarrow> driver" where
  "runFrames targetFrames outcomes = frameLoop targetFrames outcomes initialDriver"

definition framesRendered :: "driver \<Rightarrow> nat" where
  "framesRendered st = count_list (trace st) Submit"

definition framesRequested :: "driver \<Rightarrow> nat" where
  "framesRequested st = count_list (trace st) RequestAnimationFrame"

definition timesLogged :: "driver \<Rightarrow> nat" where
  "timesLogged st = count_list (trace st) LogGpuTime"


section \<open>Lemmas about the encoder\<close>

declare copyBounds.simps [simp del] encodeLoop.simps [simp del] frameLoop.simps [simp del]

lemma copyBounds_unfold:
  "copyBounds f i bi 0 bs =
     bs[8 * i + 0 + 0 := toFloat32 (f (bi + 0 + 0)), 8 * i + 4 + 0 := toFloat32 (f (bi + 3 + 0)),
        8 * i + 0 + 1 := toFloat32 (f (bi + 0 + 1)), 8 * i + 4 + 1 := toFloat32 (f (bi + 3 + 1)),
        8 * i + 0 + 2 := toFloat32 (f (bi + 0 + 2)), 8 * i + 4 + 2 := toFloat32 (f (bi + 3 + 2))]"
proof -
  have arith: "(0::nat) < 3" "(1::nat) < 3" "(2::nat) < 3" "\<not> (3::nat) < 3"
    "(0::nat) + 1 = 1" "(1::nat) + 1 = 2" "(2::nat) + 1 = 3"
    by simp_all
  have c3: "copyBounds f i bi 3 xs = xs" for xs
    by (rule trans [OF copyBounds.simps]) (simp only: arith if_False)
  have c2: "copyBounds f i bi 2 xs =
      copyBounds f i bi 3
        (xs[8 * i + 0 + 2 := toFloat32 (f (bi + 0 + 2)), 8 * i + 4 + 2 := toFloat32 (f (bi + 3 + 2))])" for xs
    by (rule trans [OF copyBounds.simps]) (simp only: arith if_True)
  have c1: "copyBounds f i bi 1 xs =
      copyBounds f i bi 2
        (xs[8 * i + 0 + 1 := toFloat32 (f (bi + 0 + 1)), 8 * i + 4 + 1 := toFloat32 (f (bi + 3 + 1))])" for xs
    by (rule trans [OF copyBounds.simps]) (simp only: arith if_True)
  have c0: "copyBounds f i bi 0 xs =
      copyBounds f i bi 1
        (xs[8 * i + 0 + 0 := toFloat32 (f (bi + 0 + 0)), 8 * i + 4 + 0 := toFloat32 (f (bi + 3 + 0))])" for xs
    by (rule trans [OF copyBounds.simps]) (simp only: arith if_True)
  show ?thesis
    unfolding c0 c1 c2 c3 ..
qed

lemma length_copyBounds [simp]: "length (copyBounds f i bi 0 bs) = length bs"
  by (simp add: copyBounds_unfold)

lemma length_encodeNode [simp]:
  "length (fst (encodeNode u16 u32 f32 i arrays)) = length (fst arrays)"
  "length (snd (encodeNode u16 u32 f32 i arrays)) = length (snd arrays)"
  by (simp_all add: encodeNode_def Let_def)

lemma length_encodeLoop:
  "length (fst (encodeLoop u16 u32 f32 n i arrays)) = length (fst arrays) \<and>
   length (snd (encodeLoop u16 u32 f32 n i arrays)) = length (snd arrays)"
proof (induction u16 u32 f32 n i arrays rule: encodeLoop.induct)
  case (1 u16 u32 f32 n i arrays)
  show ?case
  proof (cases "real i < n")
    case True
    with 1 show ?thesis by (subst (1 2) encodeLoop.simps) simp
  next
    case False
    then show ?thesis by (subst (1 2) encodeLoop.simps) simp
  qed
qed


lemma nodeIndex32_eq: "(i * BYTES_PER_NODE) div 4 = 8 * i"
  by (simp add: BYTES_PER_NODE_def)

lemma encodeNode_bounds:
  "fst (encodeNode u16 u32 f32 j arrays) =
     (fst arrays)[8 * j + 0 + 0 := toFloat32 (f32 (8 * j + 0 + 0)), 8 * j + 4 + 0 := toFloat32 (f32 (8 * j + 3 + 0)),
        8 * j + 0 + 1 := toFloat32 (f32 (8 * j + 0 + 1)), 8 * j + 4 + 1 := toFloat32 (f32 (8 * j + 3 + 1)),
        8 * j + 0 + 2 := toFloat32 (f32 (8 * j + 0 + 2)), 8 * j + 4 + 2 := toFloat32 (f32 (8 * j + 3 + 2))]"
proof -
  have "fst (encodeNode u16 u32 f32 j arrays) = copyBounds f32 j (8 * j) 0 (fst arrays)"
    by (simp add: encodeNode_def Let_def nodeIndex32_eq getBoundingDataIndex_def)
  then show ?thesis
    unfolding copyBounds_unfold .
qed

lemma encodeNode_contents:
  "snd (encodeNode u16 u32 f32 j arrays) =
     (snd arrays)[2 * j := fst (nodeWords u16 u32 j), 2 * j + 1 := snd (nodeWords u16 u32 j)]"
proof -
  have "snd (encodeNode u16 u32 f32 j arrays) =
     (snd arrays)[j * 2 + 0 := fst (nodeWords u16 u32 j), j * 2 + 1 := snd (nodeWords u16 u32 j)]"
    by (simp add: encodeNode_def Let_def nodeIndex32_eq nodeWords_def leafWords_def innerWords_def)
  then show ?thesis
    by (simp add: mult.commute)
qed

lemma encodeNode_bounds_other:
  assumes "k < 8 * j \<or> 8 * j + 8 \<le> k \<or> k = 8 * j + 3 \<or> k = 8 * j + 7"
  shows "fst (encodeNode u16 u32 f32 j arrays) ! k = fst arrays ! k"
proof -
  have "k \<noteq> 8 * j + 0 + 0" "k \<noteq> 8 * j + 4 + 0" "k \<noteq> 8 * j + 0 + 1" "k \<noteq> 8 * j + 4 + 1"
    "k \<noteq> 8 * j + 0 + 2" "k \<noteq> 8 * j + 4 + 2"
    using assms by linarith+
  then show ?thesis
    unfolding encodeNode_bounds by (simp only: nth_list_update_neq)
qed

lemma encodeNode_contents_other:
  assumes "k < 2 * j \<or> 2 * j + 2 \<le> k"
  shows "snd (encodeNode u16 u32 f32 j arrays) ! k = snd arrays ! k"
proof -
  have "k \<noteq> 2 * j" "k \<noteq> 2 * j + 1"
    using assms by linarith+
  then show ?thesis
    unfolding encodeNode_contents by (simp only: nth_list_update_neq)
qed

lemma encodeNode_bounds_min:
  assumes "b < 3" and "8 * j + b < length (fst arrays)"
  shows "fst (encodeNode u16 u32 f32 j arrays) ! (8 * j + b) = toFloat32 (f32 (8 * j + b))"
proof -
  from assms(1) consider "b = 0" | "b = 1" | "b = 2" by linarith
  then show ?thesis
    using assms(2) unfolding encodeNode_bounds
    by cases (simp_all add: nth_list_update)
qed

lemma encodeNode_bounds_max:
  assumes "b < 3" and "8 * j + 4 + b < length (fst arrays)"
  shows "fst (encodeNode u16 u32 f32 j arrays) ! (8 * j + 4 + b) = toFloat32 (f32 (8 * j + 3 + b))"
proof -
  from assms(1) consider "b = 0" | "b = 1" | "b = 2" by linarith
  then show ?thesis
    using assms(2) unfolding encodeNode_bounds
    by cases (simp_all add: nth_list_update add.commute)
qed

lemma encodeNode_contents_at:
  "2 * j + 1 < length (snd arrays) \<Longrightarrow>
   snd (encodeNode u16 u32 f32 j arrays) ! (2 * j) = fst (nodeWords u16 u32 j) \<and>
   snd (encodeNode u16 u32 f32 j arrays) ! (2 * j + 1) = snd (nodeWords u16 u32 j)"
  unfolding encodeNode_contents by (simp add: nth_list_update)

lemma encodeLoop_step:
  "real i < n \<Longrightarrow>
   encodeLoop u16 u32 f32 n i arrays = encodeLoop u16 u32 f32 n (i + 1) (encodeNode u16 u32 f32 i arrays)"
  by (subst encodeLoop.simps) simp

lemma encodeLoop_stop:
  "\<not> real i < n \<Longrightarrow> encodeLoop u16 u32 f32 n i arrays = arrays"
  by (subst encodeLoop.simps) simp

lemma encodeLoop_bounds_other:
  assumes "\<And>j. i \<le> j \<Longrightarrow> real j < n \<Longrightarrow> k < 8 * j \<or> 8 * j + 8 \<le> k \<or> k = 8 * j + 3 \<or> k = 8 * j + 7"
  shows "fst (encodeLoop u16 u32 f32 n i arrays) ! k = fst arrays ! k"
  using assms
proof (induction u16 u32 f32 n i arrays rule: encodeLoop.induct)
  case (1 u16 u32 f32 n i arrays)
  show ?case
  proof (cases "real i < n")
    case True
    have "fst (encodeLoop u16 u32 f32 n (i + 1) (encodeNode u16 u32 f32 i arrays)) ! k =
          fst (encodeNode u16 u32 f32 i arrays) ! k"
      using True "1.prems" by (intro "1.IH") simp_all
    also have "\<dots> = fst arrays ! k"
      using True "1.prems" [of i] by (intro encodeNode_bounds_other) simp
    finally show ?thesis
      using True by (simp add: encodeLoop_step)
  next
    case False
    then show ?thesis by (simp add: encodeLoop_stop)
  qed
qed

lemma encodeLoop_contents_other:
  assumes "\<And>j. i \<le> j \<Longrightarrow> real j < n \<Longrightarrow> k < 2 * j \<or> 2 * j + 2 \<le> k"
  shows "snd (encodeLoop u16 u32 f32 n i arrays) ! k = snd arrays ! k"
  using assms
proof (induction u16 u32 f32 n i arrays rule: encodeLoop.induct)
  case (1 u16 u32 f32 n i arrays)
  show ?case
  proof (cases "real i < n")
    case True
    have "snd (encodeLoop u16 u32 f32 n (i + 1) (encodeNode u16 u32 f32 i arrays)) ! k =
          snd (encodeNode u16 u32 f32 i arrays) ! k"
      using True "1.prems" by (intro "1.IH") simp_all
    also have "\<dots> = snd arrays ! k"
      using True "1.prems" [of i] by (intro encodeNode_contents_other) simp
    finally show ?thesis
      using True by (simp add: encodeLoop_step)
  next
    case False
    then show ?thesis by (simp add: encodeLoop_stop)
  qed
qed

lemma encodeLoop_reaches:
  assumes "i \<le> j" and "real j < n"
  shows "\<exists>s. length (fst s) = length (fst arrays) \<and> length (snd s) = length (snd arrays) \<and>
           encodeLoop u16 u32 f32 n i arrays =
           encodeLoop u16 u32 f32 n (j + 1) (encodeNode u16 u32 f32 j s)"
  using assms
proof (induction u16 u32 f32 n i arrays rule: encodeLoop.induct)
  case (1 u16 u32 f32 n i arrays)
  show ?case
  proof (cases "i = j")
    case True
    with "1.prems" show ?thesis
      by (intro exI [of _ arrays]) (simp add: encodeLoop_step)
  next
    case False
    with "1.prems" have lt: "i + 1 \<le> j" and here: "real i < n"
      by simp_all
    from "1.IH" [OF here lt "1.prems"(2)] obtain s where
      "length (fst s) = length (fst (encodeNode u16 u32 f32 i arrays))"
      "length (snd s) = length (snd (encodeNode u16 u32 f32 i arrays))"
      "encodeLoop u16 u32 f32 n (i + 1) (encodeNode u16 u32 f32 i arrays) =
       encodeLoop u16 u32 f32 n (j + 1) (encodeNode u16 u32 f32 j s)"
      by blast
    then show ?thesis
      using here by (intro exI [of _ s]) (simp add: encodeLoop_step)
  qed
qed

lemma encodeLoop_bounds_min:
  assumes "i \<le> j" and "real j < n" and "b < 3" and "8 * j + b < length (fst arrays)"
  shows "fst (encodeLoop u16 u32 f32 n i arrays) ! (8 * j + b) = toFloat32 (f32 (8 * j + b))"
proof -
  from encodeLoop_reaches [OF assms(1,2)] obtain s where
    s: "length (fst s) = length (fst arrays)"
      "encodeLoop u16 u32 f32 n i arrays =
       encodeLoop u16 u32 f32 n (j + 1) (encodeNode u16 u32 f32 j s)"
    by blast
  have "fst (encodeLoop u16 u32 f32 n (j + 1) (encodeNode u16 u32 f32 j s)) ! (8 * j + b) =
        fst (encodeNode u16 u32 f32 j s) ! (8 * j + b)"
    using assms(3) by (intro encodeLoop_bounds_other) linarith
  also have "\<dots> = toFloat32 (f32 (8 * j + b))"
    using assms(3,4) s(1) by (intro encodeNode_bounds_min) simp_all
  finally show ?thesis
    by (simp add: s(2))
qed

lemma encodeLoop_bounds_max:
  assumes "i \<le> j" and "real j < n" and "b < 3" and "8 * j + 4 + b < length (fst arrays)"
  shows "fst (encodeLoop u16 u32 f32 n i arrays) ! (8 * j + 4 + b) = toFloat32 (f32 (8 * j + 3 + b))"
proof -
  from encodeLoop_reaches [OF assms(1,2)] obtain s where
    s: "length (fst s) = length (fst arrays)"
      "encodeLoop u16 u32 f32 n i arrays =
       encodeLoop u16 u32 f32 n (j + 1) (encodeNode u16 u32 f32 j s)"
    by blast
  have "fst (encodeLoop u16 u32 f32 n (j + 1) (encodeNode u16 u32 f32 j s)) ! (8 * j + 4 + b) =
        fst (encodeNode u16 u32 f32 j s) ! (8 * j + 4 + b)"
    using assms(3) by (intro encodeLoop_bounds_other) linarith
  also have "\<dots> = toFloat32 (f32 (8 * j + 3 + b))"
    using assms(3,4) s(1) by (intro encodeNode_bounds_max) simp_all
  finally show ?thesis
    by (simp add: s(2))
qed

lemma encodeLoop_contents_at:
  assumes "i \<le> j" and "real j < n" and "2 * j + 1 < length (snd arrays)"
  shows "snd (encodeLoop u16 u32 f32 n i arrays) ! (2 * j) = fst (nodeWords u16 u32 j)"
    and "snd (encodeLoop u16 u32 f32 n i arrays) ! (2 * j + 1) = snd (nodeWords u16 u32 j)"
proof -
  from encodeLoop_reaches [OF assms(1,2)] obtain s where
    s: "length (snd s) = length (snd arrays)"
      "encodeLoop u16 u32 f32 n i arrays =
       encodeLoop u16 u32 f32 n (j + 1) (encodeNode u16 u32 f32 j s)"
    by blast
  have at: "snd (encodeNode u16 u32 f32 j s) ! (2 * j) = fst (nodeWords u16 u32 j) \<and>
        snd (encodeNode u16 u32 f32 j s) ! (2 * j + 1) = snd (nodeWords u16 u32 j)"
    using assms(3) s(1) by (intro encodeNode_contents_at) simp
  have "snd (encodeLoop u16 u32 f32 n (j + 1) (encodeNode u16 u32 f32 j s)) ! (2 * j) =
        snd (encodeNode u16 u32 f32 j s) ! (2 * j)"
    by (rule encodeLoop_contents_other) linarith
  with at show "snd (encodeLoop u16 u32 f32 n i arrays) ! (2 * j) = fst (nodeWords u16 u32 j)"
    by (simp add: s(2))
  have "snd (encodeLoop u16 u32 f32 n (j + 1) (encodeNode u16 u32 f32 j s)) ! (2 * j + 1) =
        snd (encodeNode u16 u32 f32 j s) ! (2 * j + 1)"
    by (rule encodeLoop_contents_other) linarith
  with at show "snd (encodeLoop u16 u32 f32 n i arrays) ! (2 * j + 1) = snd (nodeWords u16 u32 j)"
    by (simp add: s(2))
qed

lemma ceil_sqrt_sq_ge:
  assumes "0 \<le> x"
  shows "x \<le> real (nat \<lceil>sqrt x\<rceil> * nat \<lceil>sqrt x\<rceil>)"
proof -
  have nonneg: "0 \<le> sqrt x"
    using assms by simp
  have "- 1 < sqrt x"
    using nonneg by linarith
  then have "0 \<le> \<lceil>sqrt x\<rceil>"
    by (simp only: zero_le_ceiling)
  then have c: "real (nat \<lceil>sqrt x\<rceil>) = of_int \<lceil>sqrt x\<rceil>"
    by (simp only: of_nat_nat)
  have le: "sqrt x \<le> real (nat \<lceil>sqrt x\<rceil>)"
    unfolding c by (rule le_of_int_ceiling)
  have "sqrt x * sqrt x \<le> real (nat \<lceil>sqrt x\<rceil>) * real (nat \<lceil>sqrt x\<rceil>)"
    by (rule mult_mono [OF le le _ nonneg]) (simp only: of_nat_0_le_iff)
  moreover have "sqrt x * sqrt x = x"
    using assms by simp
  ultimately show ?thesis
    by (simp only: of_nat_mult)
qed

lemma contents_fit:
  assumes "real i < real len / real BYTES_PER_NODE"
  shows "2 * i + 1 < 2 * nat \<lceil>sqrt (real len / real BYTES_PER_NODE)\<rceil> * nat \<lceil>sqrt (real len / real BYTES_PER_NODE)\<rceil>"
proof -
  define c where "c = nat \<lceil>sqrt (real len / real BYTES_PER_NODE)\<rceil>"
  have "real len / real BYTES_PER_NODE \<le> real (c * c)"
    unfolding c_def by (rule ceil_sqrt_sq_ge) simp
  with assms have "real i < real (c * c)"
    by linarith
  then have "i < c * c"
    by (simp only: of_nat_less_iff)
  then show ?thesis
    unfolding c_def [symmetric] by simp
qed

lemma bounds_fit:
  assumes "real i < real len / real BYTES_PER_NODE"
  shows "8 * i + 7 < 4 * (2 * nat \<lceil>sqrt (real len / real BYTES_PER_NODE / 2)\<rceil>) *
                        (2 * nat \<lceil>sqrt (real len / real BYTES_PER_NODE / 2)\<rceil>)"
proof -
  define c where "c = nat \<lceil>sqrt (real len / real BYTES_PER_NODE / 2)\<rceil>"
  have "real len / real BYTES_PER_NODE / 2 \<le> real (c * c)"
    unfolding c_def by (rule ceil_sqrt_sq_ge) simp
  with assms have "real i < real (2 * (c * c))"
    by simp
  then have "i < 2 * (c * c)"
    by (simp only: of_nat_less_iff)
  then show ?thesis
    unfolding c_def [symmetric] by simp
qed

lemma bvhToTextures_single:
  assumes "4 dvd length buf"
  shows "bvhToTextures \<lparr>roots = [buf]\<rparr> =
     Inr \<lparr>boundsArray =
            fst (encodeLoop (Uint16Array buf) (Uint32Array buf) (Float32Array buf)
                  (real (length buf) / real BYTES_PER_NODE) 0
                  (replicate (4 * (2 * nat \<lceil>sqrt (real (length buf) / real BYTES_PER_NODE / 2)\<rceil>) *
                                  (2 * nat \<lceil>sqrt (real (length buf) / real BYTES_PER_NODE / 2)\<rceil>)) 0,
                   replicate (2 * nat \<lceil>sqrt (real (length buf) / real BYTES_PER_NODE)\<rceil> *
                                  nat \<lceil>sqrt (real (length buf) / real BYTES_PER_NODE)\<rceil>) 0)),
          contentsArray =
            snd (encodeLoop (Uint16Array buf) (Uint32Array buf) (Float32Array buf)
                  (real (length buf) / real BYTES_PER_NODE) 0
                  (replicate (4 * (2 * nat \<lceil>sqrt (real (length buf) / real BYTES_PER_NODE / 2)\<rceil>) *
                                  (2 * nat \<lceil>sqrt (real (length buf) / real BYTES_PER_NODE / 2)\<rceil>)) 0,
                   replicate (2 * nat \<lceil>sqrt (real (length buf) / real BYTES_PER_NODE)\<rceil> *
                                  nat \<lceil>sqrt (real (length buf) / real BYTES_PER_NODE)\<rceil>) 0)),
          boundsDimension = 2 * nat \<lceil>sqrt (real (length buf) / real BYTES_PER_NODE / 2)\<rceil>,
          contentsDimension = nat \<lceil>sqrt (real (length buf) / real BYTES_PER_NODE)\<rceil>\<rparr>"
proof -
  from assms have "2 dvd length buf"
    by (rule dvd_trans [rotated]) simp
  with assms show ?thesis
    unfolding bvhToTextures_def Let_def by simp
qed

lemma bvhToTextures_misaligned:
  "\<not> 4 dvd length buf \<Longrightarrow> bvhToTextures \<lparr>roots = [buf]\<rparr> = Inl RangeError"
  unfolding bvhToTextures_def Let_def by simp

lemma complete_node_reads:
  assumes "(i + 1) * BYTES_PER_NODE \<le> length buf" and "c < 8"
  shows "\<exists>w. Uint32Array buf (8 * i + c) = Some w"
    and "\<exists>h. Uint16Array buf (16 * i + 2 * c) = Some h"
    and "\<exists>h. Uint16Array buf (16 * i + 2 * c + 1) = Some h"
  using assms by (simp_all add: Uint32Array_def Uint16Array_def BYTES_PER_NODE_def)

lemma complete_node_in_loop:
  assumes "(i + 1) * BYTES_PER_NODE \<le> length buf"
  shows "real i < real (length buf) / real BYTES_PER_NODE"
proof -
  from assms have "i * 32 < length buf"
    by (simp add: BYTES_PER_NODE_def)
  then have "real (i * 32) < real (length buf)"
    by (simp only: of_nat_less_iff)
  then show ?thesis
    by (simp add: BYTES_PER_NODE_def)
qed

lemma leaf_mask: "((0xFFFF0000 :: 32 word) OR x) AND 0xFFFF0000 = 0xFFFF0000"
  by (simp add: ac_simps word_bw_lcs)

lemma small_axis_mask:
  assumes "(x :: 32 word) < 0x10000"
  shows "x AND 0xFFFF0000 \<noteq> 0xFFFF0000"
proof
  assume "x AND 0xFFFF0000 = 0xFFFF0000"
  moreover have "x AND 0xFFFF0000 \<le> x"
    by (rule word_and_le2)
  ultimately have "0xFFFF0000 \<le> x"
    by simp
  with assms show False
    by (simp add: word_less_nat_alt word_le_nat_alt)
qed

text \<open>The round trip of a float through a JavaScript number.\<close>

lemma quiet_is_NaN:
  assumes "isNaN32 x"
  shows "isNaN32 (x OR 0x00400000)"
proof -
  have e: "(x OR 0x00400000) AND 0x7F800000 = 0x7F800000"
    using assms by (simp add: isNaN32_def bit.conj_disj_distrib2)
  have "(x OR 0x00400000) AND 0x007FFFFF = (x AND 0x007FFFFF) OR 0x00400000"
    by (simp add: bit.conj_disj_distrib2)
  moreover have "(x AND 0x007FFFFF) OR 0x00400000 \<noteq> 0"
    by (simp add: or_eq_0_iff)
  ultimately show ?thesis
    by (simp add: isNaN32_def e)
qed

lemma sameFloat32_toFloat32: "sameFloat32 (toFloat32 (Some x)) x"
  by (simp add: sameFloat32_def toFloat32_def quiet_is_NaN)

lemma sameFloat32_not_NaN: "\<not> isNaN32 y \<Longrightarrow> sameFloat32 x y \<longleftrightarrow> x = y"
  by (auto simp: sameFloat32_def)

lemma toFloat32_signalling_NaN:
  "toFloat32 (Some 0x7F800001) = 0x7FC00001"
  "toFloat32 (Some 0xFF800001) = 0xFFC00001"
  "toFloat32 (Some 0x7FA00000) = 0x7FE00000"
  "toFloat32 (Some 0x3F800000) = 0x3F800000"
  by (simp_all add: toFloat32_def isNaN32_def)

text \<open>What the encoder returns for a node that lies completely inside the buffer.\<close>

lemma encoded_node:
  assumes "4 dvd length buf"
    and "(i + 1) * BYTES_PER_NODE \<le> length buf"
  shows "\<exists>t. bvhToTextures \<lparr>roots = [buf]\<rparr> = Inr t \<and>
     8 * i + 7 < length (boundsArray t) \<and> 2 * i + 1 < length (contentsArray t) \<and>
     (\<forall>b<3. \<exists>lo hi.
             Float32Array buf (getBoundingDataIndex (8 * i) + 0 + b) = Some lo \<and>
             Float32Array buf (getBoundingDataIndex (8 * i) + 3 + b) = Some hi \<and>
             sameFloat32 (boundsArray t ! (8 * i + 0 + b)) lo \<and>
             sameFloat32 (boundsArray t ! (8 * i + 4 + b)) hi) \<and>
     (if isLeaf (16 * i) (Uint16Array buf)
      then \<exists>count offset.
             getCount (16 * i) (Uint16Array buf) = Some count \<and>
             getAtOffset (8 * i) (Uint32Array buf) = Some offset \<and>
             contentsArray t ! (2 * i) = (0xFFFF0000 OR ucast count) \<and>
             contentsArray t ! (2 * i + 1) = offset
      else \<exists>splitAxis right.
             getSplitAxis (8 * i) (Uint32Array buf) = Some splitAxis \<and>
             getRightNode (8 * i) (Uint32Array buf) = Some right \<and>
             contentsArray t ! (2 * i) = splitAxis \<and>
             contentsArray t ! (2 * i + 1) = word_of_nat ((4 * unat right) div BYTES_PER_NODE))"
proof -
  let ?n = "real (length buf) / real BYTES_PER_NODE"
  let ?u16 = "Uint16Array buf" and ?u32 = "Uint32Array buf" and ?f32 = "Float32Array buf"
  let ?bd = "2 * nat \<lceil>sqrt (?n / 2)\<rceil>" and ?cd = "nat \<lceil>sqrt ?n\<rceil>"
  let ?init = "(replicate (4 * ?bd * ?bd) (0 :: 32 word), replicate (2 * ?cd * ?cd) (0 :: 32 word))"
  define res where "res = encodeLoop ?u16 ?u32 ?f32 ?n 0 ?init"
  let ?t = "\<lparr>boundsArray = fst res, contentsArray = snd res,
             boundsDimension = ?bd, contentsDimension = ?cd\<rparr>"
  have run: "bvhToTextures \<lparr>roots = [buf]\<rparr> = Inr ?t"
    unfolding res_def by (rule bvhToTextures_single [OF assms(1)])
  have inloop: "real i < ?n"
    by (rule complete_node_in_loop [OF assms(2)])
  have lb: "length (fst res) = 4 * ?bd * ?bd" and lc: "length (snd res) = 2 * ?cd * ?cd"
    unfolding res_def using length_encodeLoop [of ?u16 ?u32 ?f32 ?n 0 ?init] by simp_all
  have fitb: "8 * i + 7 < 4 * ?bd * ?bd"
    by (rule bounds_fit [OF inloop])
  have fitc: "2 * i + 1 < 2 * ?cd * ?cd"
    by (rule contents_fit [OF inloop])
  have bounds: "\<exists>lo hi.
      Float32Array buf (getBoundingDataIndex (8 * i) + 0 + b) = Some lo \<and>
      Float32Array buf (getBoundingDataIndex (8 * i) + 3 + b) = Some hi \<and>
      sameFloat32 (fst res ! (8 * i + 0 + b)) lo \<and>
      sameFloat32 (fst res ! (8 * i + 4 + b)) hi"
    if b3: "b < 3" for b
  proof -
    have "fst res ! (8 * i + b) = toFloat32 (?f32 (8 * i + b))"
      unfolding res_def using b3 fitb by (intro encodeLoop_bounds_min inloop) simp_all
    moreover have "fst res ! (8 * i + 4 + b) = toFloat32 (?f32 (8 * i + 3 + b))"
      unfolding res_def using b3 fitb by (intro encodeLoop_bounds_max inloop) simp_all
    moreover obtain w where "Uint32Array buf (8 * i + b) = Some w"
      using complete_node_reads(1) [OF assms(2), of b] b3 by auto
    moreover obtain w' where "Uint32Array buf (8 * i + (3 + b)) = Some w'"
      using complete_node_reads(1) [OF assms(2), of "3 + b"] b3 by auto
    ultimately show ?thesis
      by (simp add: Float32Array_def getBoundingDataIndex_def add.assoc sameFloat32_toFloat32)
  qed
  have c0: "snd res ! (2 * i) = fst (nodeWords ?u16 ?u32 i)"
    unfolding res_def using fitc by (intro encodeLoop_contents_at(1) inloop) simp_all
  have c1: "snd res ! (2 * i + 1) = snd (nodeWords ?u16 ?u32 i)"
    unfolding res_def using fitc by (intro encodeLoop_contents_at(2) inloop) simp_all
  obtain w6 where w6: "?u32 (8 * i + 6) = Some w6"
    using complete_node_reads(1) [OF assms(2), of 6] by auto
  obtain w7 where w7: "?u32 (8 * i + 7) = Some w7"
    using complete_node_reads(1) [OF assms(2), of 7] by auto
  obtain h14 where h14: "?u16 (16 * i + 14) = Some h14"
    using complete_node_reads(2) [OF assms(2), of 7] by auto
  have words: "if isLeaf (16 * i) ?u16
      then \<exists>count offset.
             getCount (16 * i) ?u16 = Some count \<and>
             getAtOffset (8 * i) ?u32 = Some offset \<and>
             snd res ! (2 * i) = (0xFFFF0000 OR ucast count) \<and>
             snd res ! (2 * i + 1) = offset
      else \<exists>splitAxis right.
             getSplitAxis (8 * i) ?u32 = Some splitAxis \<and>
             getRightNode (8 * i) ?u32 = Some right \<and>
             snd res ! (2 * i) = splitAxis \<and>
             snd res ! (2 * i + 1) = word_of_nat ((4 * unat right) div BYTES_PER_NODE)"
    using w6 w7 h14 unfolding c0 c1
    by (simp add: nodeWords_def leafWords_def innerWords_def getCount_def getAtOffset_def
        getSplitAxis_def getRightNode_def toInt32_def toUint32_def rightIndexOf_def mult.commute [of 2])
  show ?thesis
  proof (intro exI [of _ ?t] conjI)
    show "bvhToTextures \<lparr>roots = [buf]\<rparr> = Inr ?t"
      by (rule run)
    show "8 * i + 7 < length (boundsArray ?t)"
      unfolding textures.select_convs lb by (rule fitb)
    show "2 * i + 1 < length (contentsArray ?t)"
      unfolding textures.select_convs lc by (rule fitc)
    show "\<forall>b<3. \<exists>lo hi.
             Float32Array buf (getBoundingDataIndex (8 * i) + 0 + b) = Some lo \<and>
             Float32Array buf (getBoundingDataIndex (8 * i) + 3 + b) = Some hi \<and>
             sameFloat32 (boundsArray ?t ! (8 * i + 0 + b)) lo \<and>
             sameFloat32 (boundsArray ?t ! (8 * i + 4 + b)) hi"
      unfolding textures.select_convs using bounds by blast
  next
    show "if isLeaf (16 * i) (Uint16Array buf)
      then \<exists>count offset.
             getCount (16 * i) (Uint16Array buf) = Some count \<and>
             getAtOffset (8 * i) (Uint32Array buf) = Some offset \<and>
             contentsArray ?t ! (2 * i) = (0xFFFF0000 OR ucast count) \<and>
             contentsArray ?t ! (2 * i + 1) = offset
      else \<exists>splitAxis right.
             getSplitAxis (8 * i) (Uint32Array buf) = Some splitAxis \<and>
             getRightNode (8 * i) (Uint32Array buf) = Some right \<and>
             contentsArray ?t ! (2 * i) = splitAxis \<and>
             contentsArray ?t ! (2 * i + 1) = word_of_nat ((4 * unat right) div BYTES_PER_NODE)"
      unfolding textures.select_convs by (rule words)
  qed
qed

text \<open>
  The pattern stored for a bound, and the encoder on a node whose first bound is the
  signalling NaN \<open>0x7F800001\<close> (bytes \<open>01 00 80 7F\<close>): the quiet NaN \<open>0x7FC00001\<close> is
  stored.
\<close>

lemma encoded_bound_pattern:
  assumes "4 dvd length buf"
    and "(i + 1) * BYTES_PER_NODE \<le> length buf" and "b < 3"
  shows "\<exists>t. bvhToTextures \<lparr>roots = [buf]\<rparr> = Inr t \<and>
     boundsArray t ! (8 * i + b) = toFloat32 (Float32Array buf (8 * i + b)) \<and>
     boundsArray t ! (8 * i + 4 + b) = toFloat32 (Float32Array buf (8 * i + 3 + b))"
proof -
  let ?n = "real (length buf) / real BYTES_PER_NODE"
  let ?u16 = "Uint16Array buf" and ?u32 = "Uint32Array buf" and ?f32 = "Float32Array buf"
  let ?bd = "2 * nat \<lceil>sqrt (?n / 2)\<rceil>" and ?cd = "nat \<lceil>sqrt ?n\<rceil>"
  let ?init = "(replicate (4 * ?bd * ?bd) (0 :: 32 word), replicate (2 * ?cd * ?cd) (0 :: 32 word))"
  define res where "res = encodeLoop ?u16 ?u32 ?f32 ?n 0 ?init"
  let ?t = "\<lparr>boundsArray = fst res, contentsArray = snd res,
             boundsDimension = ?bd, contentsDimension = ?cd\<rparr>"
  have run: "bvhToTextures \<lparr>roots = [buf]\<rparr> = Inr ?t"
    unfolding res_def by (rule bvhToTextures_single [OF assms(1)])
  have inloop: "real i < ?n"
    by (rule complete_node_in_loop [OF assms(2)])
  have fitb: "8 * i + 7 < 4 * ?bd * ?bd"
    by (rule bounds_fit [OF inloop])
  have lo: "fst res ! (8 * i + b) = toFloat32 (?f32 (8 * i + b))"
    unfolding res_def using assms(3) fitb by (intro encodeLoop_bounds_min inloop) simp_all
  have hi: "fst res ! (8 * i + 4 + b) = toFloat32 (?f32 (8 * i + 3 + b))"
    unfolding res_def using assms(3) fitb by (intro encodeLoop_bounds_max inloop) simp_all
  show ?thesis
  proof (intro exI [of _ ?t] conjI)
    show "bvhToTextures \<lparr>roots = [buf]\<rparr> = Inr ?t"
      by (rule run)
    show "boundsArray ?t ! (8 * i + b) = toFloat32 (Float32Array buf (8 * i + b))"
      unfolding textures.select_convs by (rule lo)
    show "boundsArray ?t ! (8 * i + 4 + b) = toFloat32 (Float32Array buf (8 * i + 3 + b))"
      unfolding textures.select_convs by (rule hi)
  qed
qed

lemma signalling_NaN_bound_is_quieted:
  "\<exists>t. bvhToTextures \<lparr>roots = [[1, 0, 128, 127] @ replicate 28 0]\<rparr> = Inr t \<and>
       boundsArray t ! 0 = 0x7FC00001"
proof -
  define buf where "buf = [1, 0, 128, 127] @ replicate 28 (0 :: 8 word)"
  have h1: "4 dvd length buf" and h2: "(0 + 1) * BYTES_PER_NODE \<le> length buf"
    by (simp_all add: buf_def BYTES_PER_NODE_def)
  have r: "Float32Array buf (8 * 0 + 0) = Some 0x7F800001"
    by (simp add: buf_def Float32Array_def Uint32Array_def word_rcat_def)
  from encoded_bound_pattern [OF h1 h2, of 0] obtain t where
    t: "bvhToTextures \<lparr>roots = [buf]\<rparr> = Inr t"
    and "boundsArray t ! (8 * 0 + 0) = toFloat32 (Float32Array buf (8 * 0 + 0))"
    by auto
  then have "boundsArray t ! 0 = 0x7FC00001"
    unfolding r by (simp add: toFloat32_signalling_NaN)
  with t show ?thesis
    unfolding buf_def by blast
qed

lemma ceil_sqrt_eqI:
  assumes "0 < k" and "(real k - 1) ^ 2 < x" and "x \<le> (real k) ^ 2"
  shows "nat \<lceil>sqrt x\<rceil> = k"
proof -
  have "real k - 1 < sqrt x"
    using assms(2) by (rule real_less_rsqrt)
  moreover have "sqrt x \<le> real k"
    using assms(3) by (intro real_le_lsqrt) simp_all
  ultimately have "\<lceil>sqrt x\<rceil> = int k"
    by (intro ceiling_unique) simp_all
  then show ?thesis
    by simp
qed

lemma fourth_min_free:
  "8 * i + 3 < 8 * j \<or> 8 * j + 8 \<le> 8 * i + 3 \<or> 8 * i + 3 = 8 * j + 3 \<or> 8 * i + 3 = 8 * j + 7"
  for i j :: nat
  by arith

lemma fourth_max_free:
  "8 * i + 7 < 8 * j \<or> 8 * j + 8 \<le> 8 * i + 7 \<or> 8 * i + 7 = 8 * j + 3 \<or> 8 * i + 7 = 8 * j + 7"
  for i j :: nat
  by arith

lemma empty_buffer_result:
  "bvhToTextures \<lparr>roots = [[]]\<rparr> =
     Inr \<lparr>boundsArray = [], contentsArray = [], boundsDimension = 0, contentsDimension = 0\<rparr>"
  by (simp add: bvhToTextures_def Let_def encodeLoop_stop)

section \<open>Claims about the encoder\<close>

text \<open>
  Claim C1. Let the hierarchy have the single root \<open>buf\<close>, a buffer that the typed-array
  views accept (its byte length is a multiple of 4), and let \<open>i\<close> be a node that lies
  completely inside the buffer. The encoder returns, and in its result: the slots of
  node \<open>i\<close> exist in both arrays; \<open>boundsArray[8i + b]\<close> is the \<open>b\<close>-th min component and
  \<open>boundsArray[8i + 4 + b]\<close> the \<open>b\<close>-th max component of the node (\<open>b = 0, 1, 2\<close>), read
  from the float view at the node's bounds index and equal to it as a float (the same
  bits, or both NaN); for a leaf, \<open>contentsArray[2i]\<close> is
  \<open>0xFFFF0000 | count\<close> and \<open>contentsArray[2i + 1]\<close> the triangle offset; for an internal
  node, \<open>contentsArray[2i]\<close> is the split axis and \<open>contentsArray[2i + 1]\<close> the byte offset
  of the right child (four times the stored 32-bit index) divided by the node stride,
  the fractional part dropped. Here \<open>8 * i\<close> and \<open>16 * i\<close> are the node's indices
  \<open>nodeIndex32\<close> and \<open>nodeIndex16\<close> in the 32-bit and the 16-bit view.
\<close>

theorem bvhToTextures_writes_nodes:
  assumes "4 dvd length buf"
    and "(i + 1) * BYTES_PER_NODE \<le> length buf"
  shows "\<exists>t. bvhToTextures \<lparr>roots = [buf]\<rparr> = Inr t \<and>
     8 * i + 7 < length (boundsArray t) \<and> 2 * i + 1 < length (contentsArray t) \<and>
     (\<forall>b<3. \<exists>lo hi.
             Float32Array buf (getBoundingDataIndex (8 * i) + 0 + b) = Some lo \<and>
             Float32Array buf (getBoundingDataIndex (8 * i) + 3 + b) = Some hi \<and>
             sameFloat32 (boundsArray t ! (8 * i + 0 + b)) lo \<and>
             sameFloat32 (boundsArray t ! (8 * i + 4 + b)) hi) \<and>
     (if isLeaf (16 * i) (Uint16Array buf)
      then \<exists>count offset.
             getCount (16 * i) (Uint16Array buf) = Some count \<and>
             getAtOffset (8 * i) (Uint32Array buf) = Some offset \<and>
             contentsArray t ! (2 * i) = (0xFFFF0000 OR ucast count) \<and>
             contentsArray t ! (2 * i + 1) = offset
      else \<exists>splitAxis right.
             getSplitAxis (8 * i) (Uint32Array buf) = Some splitAxis \<and>
             getRightNode (8 * i) (Uint32Array buf) = Some right \<and>
             contentsArray t ! (2 * i) = splitAxis \<and>
             contentsArray t ! (2 * i + 1) = word_of_nat ((4 * unat right) div BYTES_PER_NODE))"
  using assms by (rule encoded_node)

text \<open>
  The theorem at a buffer that holds one leaf with two triangles at triangle offset 5:
  the encoder stores \<open>0xFFFF0002\<close> and \<open>5\<close>.
\<close>

theorem bvhToTextures_writes_nodes_witness:
  "4 dvd length (replicate 24 0 @ [5, 0, 0, 0, 2, 0, 255, 255 :: 8 word]) \<and>
   (0 + 1) * BYTES_PER_NODE \<le> length (replicate 24 0 @ [5, 0, 0, 0, 2, 0, 255, 255 :: 8 word]) \<and>
   (\<exists>t. bvhToTextures \<lparr>roots = [replicate 24 0 @ [5, 0, 0, 0, 2, 0, 255, 255]]\<rparr> = Inr t \<and>
        contentsArray t ! 0 = 0xFFFF0002 \<and> contentsArray t ! 1 = 5 \<and>
        boundsArray t ! 0 = 0 \<and> boundsArray t ! 6 = 0)"
proof -
  define buf where "buf = replicate 24 0 @ [5, 0, 0, 0, 2, 0, 255, 255 :: 8 word]"
  have h1: "4 dvd length buf"
    by (simp add: buf_def)
  have h2: "(0 + 1) * BYTES_PER_NODE \<le> length buf"
    by (simp add: buf_def BYTES_PER_NODE_def)
  have leaf: "isLeaf (16 * 0) (Uint16Array buf)"
    by (simp add: buf_def isLeaf_def Uint16Array_def nth_append word_cat_eq)
  have count: "getCount (16 * 0) (Uint16Array buf) = Some 2"
    by (simp add: buf_def getCount_def Uint16Array_def nth_append word_cat_eq)
  have offset: "getAtOffset (8 * 0) (Uint32Array buf) = Some 5"
    by (simp add: buf_def getAtOffset_def Uint32Array_def nth_append word_rcat_def)
  have f0: "Float32Array buf (getBoundingDataIndex (8 * 0) + 0 + 0) = Some 0"
    by (simp add: buf_def Float32Array_def getBoundingDataIndex_def Uint32Array_def nth_append word_rcat_def)
  have f5: "Float32Array buf (getBoundingDataIndex (8 * 0) + 3 + 2) = Some 0"
    by (simp add: buf_def Float32Array_def getBoundingDataIndex_def Uint32Array_def nth_append word_rcat_def)
  from bvhToTextures_writes_nodes [OF h1 h2] obtain t where
    t: "bvhToTextures \<lparr>roots = [buf]\<rparr> = Inr t"
    and b: "\<forall>b<3. \<exists>lo hi.
             Float32Array buf (getBoundingDataIndex (8 * 0) + 0 + b) = Some lo \<and>
             Float32Array buf (getBoundingDataIndex (8 * 0) + 3 + b) = Some hi \<and>
             sameFloat32 (boundsArray t ! (8 * 0 + 0 + b)) lo \<and>
             sameFloat32 (boundsArray t ! (8 * 0 + 4 + b)) hi"
    and w: "if isLeaf (16 * 0) (Uint16Array buf)
      then \<exists>count offset.
             getCount (16 * 0) (Uint16Array buf) = Some count \<and>
             getAtOffset (8 * 0) (Uint32Array buf) = Some offset \<and>
             contentsArray t ! (2 * 0) = (0xFFFF0000 OR ucast count) \<and>
             contentsArray t ! (2 * 0 + 1) = offset
      else \<exists>splitAxis right.
             getSplitAxis (8 * 0) (Uint32Array buf) = Some splitAxis \<and>
             getRightNode (8 * 0) (Uint32Array buf) = Some right \<and>
             contentsArray t ! (2 * 0) = splitAxis \<and>
             contentsArray t ! (2 * 0 + 1) = word_of_nat ((4 * unat right) div BYTES_PER_NODE)"
    by blast
  from w leaf count offset have c: "contentsArray t ! 0 = 0xFFFF0002 \<and> contentsArray t ! 1 = 5"
    by simp
  have zero: "\<not> isNaN32 0"
    by (simp add: isNaN32_def)
  from b [rule_format, of 0] b [rule_format, of 2] f0 f5
  have "sameFloat32 (boundsArray t ! 0) 0 \<and> sameFloat32 (boundsArray t ! 6) 0"
    by auto
  then have f: "boundsArray t ! 0 = 0 \<and> boundsArray t ! 6 = 0"
    by (simp add: sameFloat32_not_NaN [OF zero])
  from h1 h2 t c f show ?thesis
    unfolding buf_def by blast
qed

text \<open>
  Claim C2. For a single root the views accept and a node \<open>i\<close> that lies completely
  inside the buffer, under the precondition that the split-axis word of an internal
  node is less than \<open>0x10000\<close>: the encoder returns, and the test
  \<open>(contentsArray[2i] & 0xFFFF0000) == 0xFFFF0000\<close> holds exactly when the source node is
  a leaf, that is, when its 16-bit word at offset 15 is \<open>0xFFFF\<close>. The first word of
  the pair alone tells a leaf from an internal node.
\<close>

theorem leaf_discrimination:
  assumes "4 dvd length buf"
    and "(i + 1) * BYTES_PER_NODE \<le> length buf"
    and "\<not> isLeaf (16 * i) (Uint16Array buf) \<longrightarrow>
         (\<exists>splitAxis. getSplitAxis (8 * i) (Uint32Array buf) = Some splitAxis \<and> splitAxis < 0x10000)"
  shows "\<exists>t. bvhToTextures \<lparr>roots = [buf]\<rparr> = Inr t \<and>
     ((contentsArray t ! (2 * i) AND 0xFFFF0000 = 0xFFFF0000) \<longleftrightarrow> isLeaf (16 * i) (Uint16Array buf))"
proof -
  from encoded_node [OF assms(1,2)] obtain t where
    t: "bvhToTextures \<lparr>roots = [buf]\<rparr> = Inr t"
    and w: "if isLeaf (16 * i) (Uint16Array buf)
      then \<exists>count offset.
             getCount (16 * i) (Uint16Array buf) = Some count \<and>
             getAtOffset (8 * i) (Uint32Array buf) = Some offset \<and>
             contentsArray t ! (2 * i) = (0xFFFF0000 OR ucast count) \<and>
             contentsArray t ! (2 * i + 1) = offset
      else \<exists>splitAxis right.
             getSplitAxis (8 * i) (Uint32Array buf) = Some splitAxis \<and>
             getRightNode (8 * i) (Uint32Array buf) = Some right \<and>
             contentsArray t ! (2 * i) = splitAxis \<and>
             contentsArray t ! (2 * i + 1) = word_of_nat ((4 * unat right) div BYTES_PER_NODE)"
    by blast
  have "(contentsArray t ! (2 * i) AND 0xFFFF0000 = 0xFFFF0000) \<longleftrightarrow> isLeaf (16 * i) (Uint16Array buf)"
  proof (cases "isLeaf (16 * i) (Uint16Array buf)")
    case True
    with w obtain count where "contentsArray t ! (2 * i) = (0xFFFF0000 OR ucast (count :: 16 word))"
      by auto
    with True show ?thesis
      by (simp add: leaf_mask)
  next
    case False
    with w obtain splitAxis where a: "getSplitAxis (8 * i) (Uint32Array buf) = Some splitAxis"
      and c: "contentsArray t ! (2 * i) = splitAxis"
      by auto
    from False assms(3) a have "splitAxis < 0x10000"
      by auto
    from small_axis_mask [OF this] c False show ?thesis
      by simp
  qed
  with t show ?thesis
    by blast
qed

text \<open>
  The theorem on a buffer of two nodes: node 0 is internal with split axis 1 and its
  right child at 32-bit index 8, node 1 is a leaf with two triangles. The test fails
  for node 0 and holds for node 1.
\<close>

theorem leaf_discrimination_witness:
  "4 dvd length (replicate 24 0 @ [8, 0, 0, 0, 1, 0, 0, 0] @ replicate 24 0 @ [0, 0, 0, 0, 2, 0, 255, 255 :: 8 word]) \<and>
   \<not> isLeaf (16 * 0)
       (Uint16Array (replicate 24 0 @ [8, 0, 0, 0, 1, 0, 0, 0] @ replicate 24 0 @ [0, 0, 0, 0, 2, 0, 255, 255])) \<and>
   getSplitAxis (8 * 0)
       (Uint32Array (replicate 24 0 @ [8, 0, 0, 0, 1, 0, 0, 0] @ replicate 24 0 @ [0, 0, 0, 0, 2, 0, 255, 255])) = Some 1 \<and>
   (1 :: 32 word) < 0x10000 \<and>
   (\<exists>t. bvhToTextures
          \<lparr>roots = [replicate 24 0 @ [8, 0, 0, 0, 1, 0, 0, 0] @ replicate 24 0 @ [0, 0, 0, 0, 2, 0, 255, 255]]\<rparr> = Inr t \<and>
        contentsArray t ! (2 * 0) AND 0xFFFF0000 \<noteq> 0xFFFF0000) \<and>
   isLeaf (16 * 1)
       (Uint16Array (replicate 24 0 @ [8, 0, 0, 0, 1, 0, 0, 0] @ replicate 24 0 @ [0, 0, 0, 0, 2, 0, 255, 255])) \<and>
   (\<exists>t. bvhToTextures
          \<lparr>roots = [replicate 24 0 @ [8, 0, 0, 0, 1, 0, 0, 0] @ replicate 24 0 @ [0, 0, 0, 0, 2, 0, 255, 255]]\<rparr> = Inr t \<and>
        contentsArray t ! (2 * 1) AND 0xFFFF0000 = 0xFFFF0000)"
proof -
  define buf where
    "buf = replicate 24 0 @ [8, 0, 0, 0, 1, 0, 0, 0] @ replicate 24 0 @ [0, 0, 0, 0, 2, 0, 255, 255 :: 8 word]"
  have h1: "4 dvd length buf"
    by (simp add: buf_def)
  have n0: "(0 + 1) * BYTES_PER_NODE \<le> length buf" and n1: "(1 + 1) * BYTES_PER_NODE \<le> length buf"
    by (simp_all add: buf_def BYTES_PER_NODE_def)
  have inner: "\<not> isLeaf (16 * 0) (Uint16Array buf)"
    by (simp add: buf_def isLeaf_def Uint16Array_def nth_append word_cat_eq)
  have axis: "getSplitAxis (8 * 0) (Uint32Array buf) = Some 1"
    by (simp add: buf_def getSplitAxis_def Uint32Array_def nth_append word_rcat_def)
  have small: "(1 :: 32 word) < 0x10000"
    by simp
  have leaf: "isLeaf (16 * 1) (Uint16Array buf)"
    by (simp add: buf_def isLeaf_def Uint16Array_def nth_append word_cat_eq)
  have pre0: "\<not> isLeaf (16 * 0) (Uint16Array buf) \<longrightarrow>
      (\<exists>splitAxis. getSplitAxis (8 * 0) (Uint32Array buf) = Some splitAxis \<and> splitAxis < 0x10000)"
    using axis small by blast
  have pre1: "\<not> isLeaf (16 * 1) (Uint16Array buf) \<longrightarrow>
      (\<exists>splitAxis. getSplitAxis (8 * 1) (Uint32Array buf) = Some splitAxis \<and> splitAxis < 0x10000)"
    using leaf by blast
  from leaf_discrimination [OF h1 n0 pre0] inner
  have r0: "\<exists>t. bvhToTextures \<lparr>roots = [buf]\<rparr> = Inr t \<and>
      contentsArray t ! (2 * 0) AND 0xFFFF0000 \<noteq> 0xFFFF0000"
    by blast
  from leaf_discrimination [OF h1 n1 pre1] leaf
  have r1: "\<exists>t. bvhToTextures \<lparr>roots = [buf]\<rparr> = Inr t \<and>
      contentsArray t ! (2 * 1) AND 0xFFFF0000 = 0xFFFF0000"
    by blast
  from h1 inner axis small r0 leaf r1 show ?thesis
    unfolding buf_def by blast
qed

text \<open>
  Claim C3. A hierarchy whose list of roots does not hold exactly one root makes the
  encoder fail with the multi-root error: the result is the error, so no arrays are
  returned. A hierarchy with exactly one root never gets this error.
\<close>

theorem multi_root_rejected:
  "(length (roots bvh) \<noteq> 1 \<longrightarrow> bvhToTextures bvh = Inl MultiRootNotSupported) \<and>
   (length (roots bvh) = 1 \<longrightarrow> bvhToTextures bvh \<noteq> Inl MultiRootNotSupported)"
  by (simp add: bvhToTextures_def Let_def)

text \<open>
  The theorem for no root, for two roots and for one root.
\<close>

theorem multi_root_rejected_witness:
  "bvhToTextures \<lparr>roots = []\<rparr> = Inl MultiRootNotSupported \<and>
   bvhToTextures \<lparr>roots = [[], []]\<rparr> = Inl MultiRootNotSupported \<and>
   bvhToTextures \<lparr>roots = [[]]\<rparr> \<noteq> Inl MultiRootNotSupported"
  using multi_root_rejected [of "\<lparr>roots = []\<rparr>"] multi_root_rejected [of "\<lparr>roots = [[], []]\<rparr>"]
    multi_root_rejected [of "\<lparr>roots = [[]]\<rparr>"]
  by simp

text \<open>
  Claim C4. For a single root the views accept, with \<open>N\<close> the byte length divided by
  the node stride: the encoder returns \<open>contentsDimension = ceil (sqrt N)\<close> with a contents
  array of \<open>2 * contentsDimension\<^sup>2\<close> words, and \<open>boundsDimension = 2 * ceil (sqrt (N / 2))\<close>
  with a bounds array of \<open>4 * boundsDimension\<^sup>2\<close> floats; hence
  \<open>boundsDimension\<^sup>2 \<ge> ceil (N / 2)\<close> and \<open>contentsDimension\<^sup>2 \<ge> N\<close>.
\<close>

theorem texture_dimensions:
  assumes "4 dvd length buf"
  shows "\<exists>t. bvhToTextures \<lparr>roots = [buf]\<rparr> = Inr t \<and>
     contentsDimension t = nat \<lceil>sqrt (real (length buf) / real BYTES_PER_NODE)\<rceil> \<and>
     length (contentsArray t) = 2 * (contentsDimension t) ^ 2 \<and>
     boundsDimension t = 2 * nat \<lceil>sqrt (real (length buf) / real BYTES_PER_NODE / 2)\<rceil> \<and>
     length (boundsArray t) = 4 * (boundsDimension t) ^ 2 \<and>
     \<lceil>real (length buf) / real BYTES_PER_NODE / 2\<rceil> \<le> int ((boundsDimension t) ^ 2) \<and>
     real (length buf) / real BYTES_PER_NODE \<le> real ((contentsDimension t) ^ 2)"
proof -
  let ?n = "real (length buf) / real BYTES_PER_NODE"
  define c where "c = nat \<lceil>sqrt (?n / 2)\<rceil>"
  define d where "d = nat \<lceil>sqrt ?n\<rceil>"
  define res where "res = encodeLoop (Uint16Array buf) (Uint32Array buf) (Float32Array buf) ?n 0
      (replicate (4 * (2 * c) * (2 * c)) (0 :: 32 word), replicate (2 * d * d) (0 :: 32 word))"
  let ?t = "\<lparr>boundsArray = fst res, contentsArray = snd res,
             boundsDimension = 2 * c, contentsDimension = d\<rparr>"
  have run: "bvhToTextures \<lparr>roots = [buf]\<rparr> = Inr ?t"
    unfolding res_def c_def d_def by (rule bvhToTextures_single [OF assms])
  have lb: "length (fst res) = 4 * (2 * c) ^ 2" and lc: "length (snd res) = 2 * d ^ 2"
    unfolding res_def
    using length_encodeLoop [of "Uint16Array buf" "Uint32Array buf" "Float32Array buf" ?n 0
        "(replicate (4 * (2 * c) * (2 * c)) (0 :: 32 word), replicate (2 * d * d) (0 :: 32 word))"]
    by (simp_all add: power2_eq_square)
  have "?n / 2 \<le> real (c * c)"
    unfolding c_def by (rule ceil_sqrt_sq_ge) simp
  also have "real (c * c) \<le> real ((2 * c) ^ 2)"
    by (simp add: power2_eq_square)
  finally have "?n / 2 \<le> real_of_int (int ((2 * c) ^ 2))"
    by simp
  then have fitb: "\<lceil>?n / 2\<rceil> \<le> int ((2 * c) ^ 2)"
    by (simp only: ceiling_le_iff)
  have "?n \<le> real (d * d)"
    unfolding d_def by (rule ceil_sqrt_sq_ge) simp
  then have fitc: "?n \<le> real (d ^ 2)"
    by (simp add: power2_eq_square)
  show ?thesis
  proof (intro exI [of _ ?t] conjI)
    show "bvhToTextures \<lparr>roots = [buf]\<rparr> = Inr ?t"
      by (rule run)
    show "contentsDimension ?t = nat \<lceil>sqrt ?n\<rceil>"
      by (simp add: d_def)
    show "length (contentsArray ?t) = 2 * (contentsDimension ?t) ^ 2"
      using lc by simp
    show "boundsDimension ?t = 2 * nat \<lceil>sqrt (?n / 2)\<rceil>"
      by (simp add: c_def)
    show "length (boundsArray ?t) = 4 * (boundsDimension ?t) ^ 2"
      using lb by simp
    show "\<lceil>?n / 2\<rceil> \<le> int ((boundsDimension ?t) ^ 2)"
      unfolding textures.select_convs by (rule fitb)
    show "?n \<le> real ((contentsDimension ?t) ^ 2)"
      unfolding textures.select_convs by (rule fitc)
  qed
qed

text \<open>
  The theorem for a buffer of two nodes: both dimensions are 2, the contents array has
  8 words and the bounds array 16 floats.
\<close>

theorem texture_dimensions_witness:
  "4 dvd length (replicate 64 (0 :: 8 word)) \<and>
   (\<exists>t. bvhToTextures \<lparr>roots = [replicate 64 0]\<rparr> = Inr t \<and>
        contentsDimension t = 2 \<and> length (contentsArray t) = 8 \<and>
        boundsDimension t = 2 \<and> length (boundsArray t) = 16)"
proof -
  define buf where "buf = replicate 64 (0 :: 8 word)"
  have h: "4 dvd length buf"
    by (simp add: buf_def)
  have n: "real (length buf) / real BYTES_PER_NODE = 2"
    by (simp add: buf_def BYTES_PER_NODE_def)
  have d: "nat \<lceil>sqrt (2 :: real)\<rceil> = 2"
    by (rule ceil_sqrt_eqI) simp_all
  have c: "nat \<lceil>sqrt (2 / 2 :: real)\<rceil> = 1"
    by simp
  from texture_dimensions [OF h] obtain t where
    "bvhToTextures \<lparr>roots = [buf]\<rparr> = Inr t"
    "contentsDimension t = 2" "length (contentsArray t) = 2 * (contentsDimension t) ^ 2"
    "boundsDimension t = 2" "length (boundsArray t) = 4 * (boundsDimension t) ^ 2"
    unfolding n d c by auto
  with h show ?thesis
    unfolding buf_def by auto
qed

text \<open>
  Claim C6, as stated, fails. For the empty node buffer the encoder returns dimensions
  0 and 0 with two empty arrays, not a 1-by-1 texture: \<open>ceil (sqrt 0)\<close> is 0 and
  nothing raises it to 1.
\<close>

theorem empty_buffer_not_one_by_one:
  "case bvhToTextures \<lparr>roots = [[]]\<rparr> of
     Inl e \<Rightarrow> False
   | Inr t \<Rightarrow> boundsDimension t \<noteq> 1 \<and> contentsDimension t \<noteq> 1 \<and>
       boundsArray t = [] \<and> contentsArray t = []"
  by (simp add: empty_buffer_result)

text \<open>
  Claim C6, amended. For an empty node buffer the encoder divides only by the node
  stride, which is not zero, and returns the dimensions 0 and 0 with two empty arrays.
\<close>

theorem empty_buffer_encoding:
  assumes "length buf = 0"
  shows "BYTES_PER_NODE \<noteq> 0 \<and>
     bvhToTextures \<lparr>roots = [buf]\<rparr> =
       Inr \<lparr>boundsArray = [], contentsArray = [], boundsDimension = 0, contentsDimension = 0\<rparr>"
  using assms by (simp add: empty_buffer_result BYTES_PER_NODE_def)

theorem empty_buffer_encoding_witness:
  "length ([] :: 8 word list) = 0 \<and> BYTES_PER_NODE \<noteq> 0 \<and>
   bvhToTextures \<lparr>roots = [[]]\<rparr> =
     Inr \<lparr>boundsArray = [], contentsArray = [], boundsDimension = 0, contentsDimension = 0\<rparr>"
  using empty_buffer_encoding [of "[]"] by simp

text \<open>
  Claim C9. For a single root whose buffer holds exactly \<open>n\<close> nodes, every element the
  loop does not write is zero in the result: the bounds array from index \<open>8n\<close> on, the
  contents array from index \<open>2n\<close> on, and the fourth component of the min group and of
  the max group of every node, \<open>boundsArray[8i + 3]\<close> and \<open>boundsArray[8i + 7]\<close>.
\<close>

theorem padding_is_zero:
  assumes "length buf = n * BYTES_PER_NODE"
  shows "\<exists>t. bvhToTextures \<lparr>roots = [buf]\<rparr> = Inr t \<and>
     (\<forall>k. 8 * n \<le> k \<and> k < length (boundsArray t) \<longrightarrow> boundsArray t ! k = 0) \<and>
     (\<forall>k. 2 * n \<le> k \<and> k < length (contentsArray t) \<longrightarrow> contentsArray t ! k = 0) \<and>
     (\<forall>i<n. boundsArray t ! (8 * i + 3) = 0 \<and> boundsArray t ! (8 * i + 7) = 0)"
proof -
  let ?n = "real (length buf) / real BYTES_PER_NODE"
  let ?u16 = "Uint16Array buf" and ?u32 = "Uint32Array buf" and ?f32 = "Float32Array buf"
  define lenb where "lenb = 4 * (2 * nat \<lceil>sqrt (?n / 2)\<rceil>) * (2 * nat \<lceil>sqrt (?n / 2)\<rceil>)"
  define lenc where "lenc = 2 * nat \<lceil>sqrt ?n\<rceil> * nat \<lceil>sqrt ?n\<rceil>"
  define init where "init = (replicate lenb (0 :: 32 word), replicate lenc (0 :: 32 word))"
  define res where "res = encodeLoop ?u16 ?u32 ?f32 ?n 0 init"
  let ?t = "\<lparr>boundsArray = fst res, contentsArray = snd res,
             boundsDimension = 2 * nat \<lceil>sqrt (?n / 2)\<rceil>, contentsDimension = nat \<lceil>sqrt ?n\<rceil>\<rparr>"
  have "4 dvd length buf"
    by (simp add: assms BYTES_PER_NODE_def)
  then have run: "bvhToTextures \<lparr>roots = [buf]\<rparr> = Inr ?t"
    unfolding res_def init_def lenb_def lenc_def by (rule bvhToTextures_single)
  have n: "?n = real n"
    by (simp add: assms BYTES_PER_NODE_def)
  have lb: "length (fst res) = lenb" and lc: "length (snd res) = lenc"
    unfolding res_def using length_encodeLoop [of ?u16 ?u32 ?f32 ?n 0 init]
    by (simp_all add: init_def)
  have pad_b: "fst res ! k = 0" if "8 * n \<le> k" "k < length (fst res)" for k
  proof -
    have "fst res ! k = fst init ! k"
      unfolding res_def n using that(1) by (intro encodeLoop_bounds_other) simp
    with that(2) show ?thesis
      by (simp add: lb init_def)
  qed
  have pad_c: "snd res ! k = 0" if "2 * n \<le> k" "k < length (snd res)" for k
  proof -
    have "snd res ! k = snd init ! k"
      unfolding res_def n using that(1) by (intro encodeLoop_contents_other) simp
    with that(2) show ?thesis
      by (simp add: lc init_def)
  qed
  have fourth: "fst res ! (8 * i + 3) = 0 \<and> fst res ! (8 * i + 7) = 0" if "i < n" for i
  proof -
    from that have "real i < ?n"
      by (simp add: n)
    then have fit: "8 * i + 7 < lenb"
      unfolding lenb_def by (rule bounds_fit)
    have "fst res ! (8 * i + 3) = fst init ! (8 * i + 3)"
      unfolding res_def by (intro encodeLoop_bounds_other fourth_min_free)
    moreover have "fst res ! (8 * i + 7) = fst init ! (8 * i + 7)"
      unfolding res_def by (intro encodeLoop_bounds_other fourth_max_free)
    ultimately show ?thesis
      using fit by (simp add: init_def)
  qed
  show ?thesis
  proof (intro exI [of _ ?t] conjI)
    show "bvhToTextures \<lparr>roots = [buf]\<rparr> = Inr ?t"
      by (rule run)
    show "\<forall>k. 8 * n \<le> k \<and> k < length (boundsArray ?t) \<longrightarrow> boundsArray ?t ! k = 0"
      unfolding textures.select_convs using pad_b by blast
    show "\<forall>k. 2 * n \<le> k \<and> k < length (contentsArray ?t) \<longrightarrow> contentsArray ?t ! k = 0"
      unfolding textures.select_convs using pad_c by blast
    show "\<forall>i<n. boundsArray ?t ! (8 * i + 3) = 0 \<and> boundsArray ?t ! (8 * i + 7) = 0"
      unfolding textures.select_convs using fourth by blast
  qed
qed

theorem padding_is_zero_witness:
  "length (replicate 32 (0 :: 8 word)) = 1 * BYTES_PER_NODE \<and>
   (\<exists>t. bvhToTextures \<lparr>roots = [replicate 32 0]\<rparr> = Inr t \<and>
        (\<forall>k. 8 * 1 \<le> k \<and> k < length (boundsArray t) \<longrightarrow> boundsArray t ! k = 0) \<and>
        (\<forall>k. 2 * 1 \<le> k \<and> k < length (contentsArray t) \<longrightarrow> contentsArray t ! k = 0) \<and>
        boundsArray t ! (8 * 0 + 3) = 0 \<and> boundsArray t ! (8 * 0 + 7) = 0)"
proof -
  have h: "length (replicate 32 (0 :: 8 word)) = 1 * BYTES_PER_NODE"
    by (simp add: BYTES_PER_NODE_def)
  from padding_is_zero [OF h] h show ?thesis
    by (elim exE conjE, intro conjI exI) (assumption | simp)+
qed

section \<open>Claims about the dispatch size\<close>






section \<open>Claims about the frame loop\<close>

lemma render_Resolves:
  assumes "resultBufferState st = Unmapped"
  shows "render T Resolves st =
     (if frame st < T
      then (st\<lparr>frame := frame st + 1,
               trace := trace st @ [DispatchWorkgroups, ResolveQuerySet, CopyBufferToBuffer, Draw, Submit,
                          MapAsync, LogGpuTime, Unmap, RequestAnimationFrame]\<rparr>, True)
      else (st\<lparr>trace := trace st @ [DispatchWorkgroups, ResolveQuerySet, CopyBufferToBuffer, Draw, Submit,
                          MapAsync, LogGpuTime, Unmap]\<rparr>, False))"
  using assms by (simp add: render_def scheduleNext_def emit_def Let_def)

lemma render_Rejects:
  assumes "resultBufferState st = Unmapped"
  shows "render T Rejects st =
     (st\<lparr>trace := trace st @ [DispatchWorkgroups, ResolveQuerySet, CopyBufferToBuffer, Draw, Submit,
                          MapAsync]\<rparr>, False)"
  using assms by (simp add: render_def scheduleNext_def emit_def Let_def)

lemma render_NeverSettles:
  assumes "resultBufferState st = Unmapped"
  shows "render T NeverSettles st =
     (st\<lparr>resultBufferState := Pending,
         trace := trace st @ [DispatchWorkgroups, ResolveQuerySet, CopyBufferToBuffer, Draw, Submit,
                          MapAsync]\<rparr>, False)"
  using assms by (simp add: render_def scheduleNext_def emit_def Let_def)

lemma render_one_submit:
  "framesRendered (fst (render T outcome st)) = framesRendered st + 1"
  by (cases outcome)
    (simp_all add: render_def scheduleNext_def emit_def Let_def framesRendered_def)

lemma frameLoop_scheduled:
  "render T (outcomes (frame st)) st = (st', True) \<Longrightarrow> frameLoop T outcomes st = frameLoop T outcomes st'"
  by (subst frameLoop.simps) simp

lemma frameLoop_stopped:
  "render T (outcomes (frame st)) st = (st', False) \<Longrightarrow> frameLoop T outcomes st = st'"
  by (subst frameLoop.simps) simp

lemma frameLoop_bound:
  "framesRendered (frameLoop T outcomes st) \<le> framesRendered st + (T - frame st) + 1"
proof (induction "T - frame st" arbitrary: st rule: less_induct)
  case less
  obtain st' scheduled where r: "render T (outcomes (frame st)) st = (st', scheduled)"
    by (cases "render T (outcomes (frame st)) st")
  have one: "framesRendered st' = framesRendered st + 1"
    using render_one_submit [of T "outcomes (frame st)" st] r by simp
  show ?case
  proof (cases scheduled)
    case True
    with r have f: "frame st < T" "frame st' = frame st + 1"
      by (auto dest: render_scheduled)
    then have "framesRendered (frameLoop T outcomes st') \<le> framesRendered st' + (T - frame st') + 1"
      by (intro less) simp
    with f one show ?thesis
      using r True by (simp add: frameLoop_scheduled)
  next
    case False
    with r one show ?thesis
      by (simp add: frameLoop_stopped)
  qed
qed

lemma frameLoop_all_resolve:
  assumes "resultBufferState st = Unmapped"
    and "\<forall>k. frame st \<le> k \<and> k \<le> T \<longrightarrow> outcomes k = Resolves"
    and "frame st \<le> T"
  shows "framesRendered (frameLoop T outcomes st) = framesRendered st + (T - frame st) + 1 \<and>
         framesRequested (frameLoop T outcomes st) = framesRequested st + (T - frame st)"
  using assms
proof (induction "T - frame st" arbitrary: st rule: less_induct)
  case less
  from less.prems have o: "outcomes (frame st) = Resolves"
    by simp
  show ?case
  proof (cases "frame st < T")
    case True
    define st' where "st' = st\<lparr>frame := frame st + 1,
               trace := trace st @ [DispatchWorkgroups, ResolveQuerySet, CopyBufferToBuffer, Draw, Submit,
                          MapAsync, LogGpuTime, Unmap, RequestAnimationFrame]\<rparr>"
    have r: "render T (outcomes (frame st)) st = (st', True)"
      using True less.prems(1) by (simp add: o render_Resolves st'_def)
    have "framesRendered (frameLoop T outcomes st') = framesRendered st' + (T - frame st') + 1 \<and>
          framesRequested (frameLoop T outcomes st') = framesRequested st' + (T - frame st')"
      using True less.prems by (intro less.hyps) (simp_all add: st'_def)
    moreover have "framesRendered st' = framesRendered st + 1" "framesRequested st' = framesRequested st + 1"
      "frame st' = frame st + 1"
      by (simp_all add: st'_def framesRendered_def framesRequested_def)
    ultimately show ?thesis
      using True unfolding frameLoop_scheduled [where outcomes = outcomes, OF r]
      by (intro conjI) linarith+
  next
    case False
    define st' where "st' = st\<lparr>trace := trace st @ [DispatchWorkgroups, ResolveQuerySet, CopyBufferToBuffer,
        Draw, Submit, MapAsync, LogGpuTime, Unmap]\<rparr>"
    have r: "render T (outcomes (frame st)) st = (st', False)"
      using False less.prems(1) by (simp add: o render_Resolves st'_def)
    show ?thesis
      using False by (simp add: frameLoop_stopped [where outcomes = outcomes, OF r] st'_def framesRendered_def framesRequested_def)
  qed
qed

lemma initialDriver_simps:
  "frame initialDriver = 0" "resultBufferState initialDriver = Unmapped"
  "framesRendered initialDriver = 0" "framesRequested initialDriver = 1" "timesLogged initialDriver = 0"
  by (simp_all add: initialDriver_def framesRendered_def framesRequested_def timesLogged_def)

text \<open>
  The run of the program: with the configured target the first call of the frame
  function is the only one, and it never requests another frame.
\<close>

lemma trace_at_TARGET_FRAMES:
  "trace (runFrames TARGET_FRAMES outcomes) =
     [RequestAnimationFrame, DispatchWorkgroups, ResolveQuerySet, CopyBufferToBuffer, Draw, Submit,
      MapAsync] @ (if outcomes 0 = Resolves then [LogGpuTime, Unmap] else [])"
proof -
  have u: "resultBufferState initialDriver = Unmapped" and f: "frame initialDriver = 0"
    by (simp_all add: initialDriver_def)
  obtain st' where r: "render 0 (outcomes (frame initialDriver)) initialDriver = (st', False)"
    and t: "trace st' = [RequestAnimationFrame, DispatchWorkgroups, ResolveQuerySet,
        CopyBufferToBuffer, Draw, Submit, MapAsync] @
        (if outcomes 0 = Resolves then [LogGpuTime, Unmap] else [])"
    using u
    by (cases "outcomes 0")
      (simp_all add: f render_Resolves render_Rejects render_NeverSettles initialDriver_def)
  from frameLoop_stopped [where outcomes = outcomes, OF r] t show ?thesis
    by (simp add: runFrames_def TARGET_FRAMES_def)
qed






text \<open>
  Claim C10. The frame loop is bounded by the target frame count. With the target of the
  program the frame function runs exactly \<open>TARGET_FRAMES + 1\<close> times, which is once,
  whatever becomes of the maps, and as many frames were requested, so none is scheduled
  afterwards. For every target \<open>T\<close> it runs at most \<open>T + 1\<close> times, and exactly \<open>T + 1\<close>
  times, with \<open>T + 1\<close> frames requested, when the map of every frame resolves.
\<close>

theorem frame_loop_bounded:
  "framesRendered (runFrames TARGET_FRAMES outcomes) = TARGET_FRAMES + 1 \<and>
   framesRequested (runFrames TARGET_FRAMES outcomes) = TARGET_FRAMES + 1 \<and>
   framesRendered (runFrames TARGET_FRAMES outcomes) = 1 \<and>
   framesRendered (runFrames T outcomes) \<le> T + 1 \<and>
   ((\<forall>k\<le>T. outcomes k = Resolves) \<longrightarrow>
      framesRendered (runFrames T outcomes) = T + 1 \<and> framesRequested (runFrames T outcomes) = T + 1)"
proof (intro conjI impI)
  have rendered: "framesRendered (runFrames TARGET_FRAMES outcomes) = 1"
    by (simp add: trace_at_TARGET_FRAMES framesRendered_def)
  have requested: "framesRequested (runFrames TARGET_FRAMES outcomes) = 1"
    by (simp add: trace_at_TARGET_FRAMES framesRequested_def)
  show "framesRendered (runFrames TARGET_FRAMES outcomes) = TARGET_FRAMES + 1"
    unfolding rendered by (simp add: TARGET_FRAMES_def)
  show "framesRequested (runFrames TARGET_FRAMES outcomes) = TARGET_FRAMES + 1"
    unfolding requested by (simp add: TARGET_FRAMES_def)
  show "framesRendered (runFrames TARGET_FRAMES outcomes) = 1"
    by (rule rendered)
  show "framesRendered (runFrames T outcomes) \<le> T + 1"
    using frameLoop_bound [of T outcomes initialDriver] by (simp add: runFrames_def initialDriver_simps)
next
  assume "\<forall>k\<le>T. outcomes k = Resolves"
  then show "framesRendered (runFrames T outcomes) = T + 1"
    using frameLoop_all_resolve [of initialDriver T outcomes]
    by (simp add: runFrames_def initialDriver_simps)
next
  assume "\<forall>k\<le>T. outcomes k = Resolves"
  then show "framesRequested (runFrames T outcomes) = T + 1"
    using frameLoop_all_resolve [of initialDriver T outcomes]
    by (simp add: runFrames_def initialDriver_simps)
qed

theorem frame_loop_bounded_witness:
  "framesRendered (runFrames TARGET_FRAMES (\<lambda>k. Rejects)) = 1 \<and>
   framesRequested (runFrames TARGET_FRAMES (\<lambda>k. Rejects)) = 1 \<and>
   framesRendered (runFrames 2 (\<lambda>k. Resolves)) = 3 \<and>
   framesRequested (runFrames 2 (\<lambda>k. Resolves)) = 3"
  using frame_loop_bounded [of "\<lambda>k. Rejects" 0] frame_loop_bounded [of "\<lambda>k. Resolves" 2]
  by (simp add: TARGET_FRAMES_def)

end
